theory Spec2Isabelle
  imports Complex_Main "HOL-Library.Sublist" "HOL-Library.Multiset"
begin

section \<open>The retrieval engine of \<open>backend/agents.py\<close>\<close>

text \<open>
  The development embeds class \<open>CompetitiveProgrammingSearch\<close> of \<open>backend/agents.py\<close>:
  the builder \<open>_create_weighted_embeddings\<close>, the ranker \<open>fetch_related_approaches\<close> and
  the facade \<open>find_similar_approaches\<close>. The two external collaborators, the graph query
  \<open>_fetch_questions_by_subtopics\<close> (a Neo4j session) and the sentence encoder
  \<open>self.model.encode\<close>, are parameters of the model: functions that return either an
  error or a value.

  Modelling decisions:
  \<^item> a graph node is the Python dict of its properties, an association list from
    property names to text; an entry of a collected list is a node or \<open>None\<close>;
  \<^item> an exception is a value \<open>Inl e\<close>; every subscript of a dict that can raise
    \<open>KeyError\<close> is a branch of the model, in the order Python evaluates them;
  \<^item> the object's attribute \<open>self.approach_embeddings\<close> is a field of an explicit state
    that every method takes and returns; the state also records, as ghost fields, the
    texts handed to the encoder, the scopes handed to the graph query and the lines
    printed, in call order;
  \<^item> an embedding is a list of reals and a score is the exact inner product: the
    rounding of the float arithmetic is not modelled, and \<open>numpy.dot\<close> on two vectors of
    different lengths raises \<open>ValueError\<close>.
\<close>

subsection \<open>Data\<close>

type_synonym node = "(string \<times> string) list"

type_synonym vector = "real list"

datatype error =
    KeyError string
  | ValueError
  | StoreUnavailable string
  | EmbeddingFailure string

text \<open>
  One row of the Cypher query's result, \<open>q_data\<close>. Field \<open>q_node\<close> is \<open>q_data['q']\<close>;
  the other fields carry the names of the query's columns.
\<close>

record question_bundle =
  q_node :: node
  testCases :: "node option list"
  optimizedApproaches :: "node option list"
  approachedApproaches :: "node option list"
  constraints :: "node option list"
  improvedApproaches :: "node option list"
  optimizedCodes :: "node option list"
  approachedCodes :: "node option list"
  improvedCodes :: "node option list"

text \<open>The dict appended to \<open>self.approach_embeddings\<close> for one approach.\<close>

record approach_record =
  question_id :: string
  approach_type :: string
  embedding :: vector
  approach_node :: node
  code_node :: "node option"

text \<open>The dict \<open>{'approach_data': ..., 'similarity': ...}\<close> of the ranker.\<close>

record scored =
  approach_data :: approach_record
  similarity :: real

text \<open>The dict returned by the facade for one ranked approach.\<close>

record ranked_result =
  result_question_id :: string
  result_approach_node :: node
  result_code_node :: "node option"
  similarity_score :: real

datatype log_line = No_questions_found "string list"

record search_state =
  approach_embeddings :: "approach_record list"
  encode_log :: "string list"
  fetch_log :: "string list list"
  stdout :: "log_line list"

subsection \<open>Python primitives\<close>

text \<open>Truth value of a list entry: \<open>None\<close> and the empty dict are false.\<close>

fun truthy :: "node option \<Rightarrow> bool" where
  "truthy None = False"
| "truthy (Some d) = (d \<noteq> [])"

text \<open>\<open>d[k]\<close> on a dict: the value, or \<open>KeyError\<close>.\<close>

definition subscript :: "node \<Rightarrow> string \<Rightarrow> error + string" where
  "subscript d k = (case map_of d k of None \<Rightarrow> Inl (KeyError k) | Some v \<Rightarrow> Inr v)"

text \<open>\<open>sep.join(parts)\<close>.\<close>

fun join :: "string \<Rightarrow> string list \<Rightarrow> string" where
  "join sep [] = []"
| "join sep [x] = x"
| "join sep (x # y # ys) = x @ sep @ join sep (y # ys)"

text \<open>\<open>" ".join(filter(None, components))\<close>: the empty strings are dropped.\<close>

definition join_components :: "string list \<Rightarrow> string" where
  "join_components components = join '' '' (filter (\<lambda>c. c \<noteq> []) components)"

text \<open>\<open>numpy.dot\<close> on two one-dimensional arrays.\<close>

definition np_dot :: "vector \<Rightarrow> vector \<Rightarrow> error + real" where
  "np_dot u v =
     (if length u = length v then Inr (sum_list (map (\<lambda>(a, b). a * b) (zip u v)))
      else Inl ValueError)"

text \<open>
  \<open>xs.sort(key=..., reverse=True)\<close>: Python's sort is stable, and with \<open>reverse=True\<close>
  elements of equal key keep their original order. Insertion sort on the negated key is
  the same permutation.
\<close>

definition sort_reverse :: "('a \<Rightarrow> real) \<Rightarrow> 'a list \<Rightarrow> 'a list" where
  "sort_reverse key xs = sort_key (\<lambda>x. - key x) xs"

text \<open>The slice \<open>xs[:k]\<close>: a negative \<open>k\<close> counts from the end.\<close>

definition slice_to :: "'a list \<Rightarrow> int \<Rightarrow> 'a list" where
  "slice_to xs k =
     (if 0 \<le> k then take (nat k) xs else take (nat (int (length xs) + k)) xs)"

subsection \<open>The builder: \<open>_create_weighted_embeddings\<close>\<close>

text \<open>
  Lines 181 to 184: the text embedded for one truthy approach and its paired code entry.
\<close>

definition approach_text :: "node \<Rightarrow> node option \<Rightarrow> error + string" where
  "approach_text approach code =
     (case subscript approach ''description'' of
        Inl e \<Rightarrow> Inl e
      | Inr description \<Rightarrow>
          (case code of
             None \<Rightarrow> Inr (join_components [description])
           | Some c \<Rightarrow>
               if c \<noteq> [] then
                 (case subscript c ''content'' of
                    Inl e \<Rightarrow> Inl e
                  | Inr content \<Rightarrow> Inr (join_components [description, content]))
               else Inr (join_components [description])))"

text \<open>
  The body of one of the three inner loops, for the pair \<open>(approach, code)\<close> and the
  category \<open>ty\<close>. The encoder is called before the record's dict is built, so
  \<open>q_data['q']['text']\<close> is read last.
\<close>

definition embed_pair ::
  "(string \<Rightarrow> error + vector) \<Rightarrow> question_bundle \<Rightarrow> string \<Rightarrow> node option \<times> node option \<Rightarrow>
   search_state \<Rightarrow> (error + unit) \<times> search_state" where
  "embed_pair encode q_data ty p s =
     (case p of (approach, code) \<Rightarrow>
        (case approach of
           None \<Rightarrow> (Inr (), s)
         | Some a \<Rightarrow>
             if a \<noteq> [] then
               (case approach_text a code of
                  Inl e \<Rightarrow> (Inl e, s)
                | Inr approach_text' \<Rightarrow>
                    (let s1 = s\<lparr>encode_log := encode_log s @ [approach_text']\<rparr> in
                     case encode approach_text' of
                       Inl e \<Rightarrow> (Inl e, s1)
                     | Inr approach_embedding \<Rightarrow>
                         (case subscript (q_node q_data) ''text'' of
                            Inl e \<Rightarrow> (Inl e, s1)
                          | Inr qid \<Rightarrow>
                              (Inr (), s1\<lparr>approach_embeddings := approach_embeddings s1 @
                                 [\<lparr>question_id = qid, approach_type = ty,
                                   embedding = approach_embedding,
                                   approach_node = a, code_node = code\<rparr>]\<rparr>))))
             else (Inr (), s)))"

text \<open>One inner loop: \<open>for approach, code in zip(...)\<close>, left at the first exception.\<close>

fun embed_pairs ::
  "(string \<Rightarrow> error + vector) \<Rightarrow> question_bundle \<Rightarrow> string \<Rightarrow> (node option \<times> node option) list \<Rightarrow>
   search_state \<Rightarrow> (error + unit) \<times> search_state" where
  "embed_pairs encode q_data ty [] s = (Inr (), s)"
| "embed_pairs encode q_data ty (p # ps) s =
     (case embed_pair encode q_data ty p s of
        (Inl e, s') \<Rightarrow> (Inl e, s')
      | (Inr u, s') \<Rightarrow> embed_pairs encode q_data ty ps s')"

text \<open>The body of the outer loop: the three categories of one bundle, in source order.\<close>

definition embed_bundle ::
  "(string \<Rightarrow> error + vector) \<Rightarrow> question_bundle \<Rightarrow> search_state \<Rightarrow> (error + unit) \<times> search_state" where
  "embed_bundle encode q_data s =
     (case embed_pairs encode q_data ''approached''
             (zip (approachedApproaches q_data) (approachedCodes q_data)) s of
        (Inl e, s1) \<Rightarrow> (Inl e, s1)
      | (Inr u, s1) \<Rightarrow>
          (case embed_pairs encode q_data ''optimized''
                  (zip (optimizedApproaches q_data) (optimizedCodes q_data)) s1 of
             (Inl e, s2) \<Rightarrow> (Inl e, s2)
           | (Inr u, s2) \<Rightarrow>
               embed_pairs encode q_data ''improved''
                 (zip (improvedApproaches q_data) (improvedCodes q_data)) s2))"

fun embed_bundles ::
  "(string \<Rightarrow> error + vector) \<Rightarrow> question_bundle list \<Rightarrow> search_state \<Rightarrow> (error + unit) \<times> search_state" where
  "embed_bundles encode [] s = (Inr (), s)"
| "embed_bundles encode (q_data # rest) s =
     (case embed_bundle encode q_data s of
        (Inl e, s') \<Rightarrow> (Inl e, s')
      | (Inr u, s') \<Rightarrow> embed_bundles encode rest s')"

text \<open>
  \<open>_create_weighted_embeddings(self, questions_data, code_analysis)\<close>: the stored list is
  reset, then filled. The argument \<open>code_analysis\<close> is not used by the source.
\<close>

definition create_weighted_embeddings ::
  "(string \<Rightarrow> error + vector) \<Rightarrow> search_state \<Rightarrow> question_bundle list \<Rightarrow> string \<Rightarrow>
   (error + unit) \<times> search_state" where
  "create_weighted_embeddings encode s questions_data code_analysis =
     embed_bundles encode questions_data (s\<lparr>approach_embeddings := []\<rparr>)"

subsection \<open>The ranker: \<open>fetch_related_approaches\<close>\<close>

text \<open>The scoring loop over \<open>self.approach_embeddings\<close>, left at the first exception.\<close>

fun score_records ::
  "vector \<Rightarrow> string set option \<Rightarrow> approach_record list \<Rightarrow> error + scored list" where
  "score_records query_embedding approach_types [] = Inr []"
| "score_records query_embedding approach_types (r # rs) =
     (if approach_types = None \<or> approach_type r \<in> the approach_types then
        (case np_dot query_embedding (embedding r) of
           Inl e \<Rightarrow> Inl e
         | Inr similarity_score' \<Rightarrow>
             (case score_records query_embedding approach_types rs of
                Inl e \<Rightarrow> Inl e
              | Inr relevant \<Rightarrow>
                  Inr (\<lparr>approach_data = r, similarity = similarity_score'\<rparr> # relevant)))
      else score_records query_embedding approach_types rs)"

definition fetch_related_approaches ::
  "search_state \<Rightarrow> vector \<Rightarrow> int \<Rightarrow> string set option \<Rightarrow> error + scored list" where
  "fetch_related_approaches s query_embedding top_k approach_types =
     (if approach_embeddings s = [] then Inr []
      else
        (case score_records query_embedding approach_types (approach_embeddings s) of
           Inl e \<Rightarrow> Inl e
         | Inr relevant_approaches \<Rightarrow>
             Inr (slice_to (sort_reverse similarity relevant_approaches) top_k)))"

subsection \<open>The facade: \<open>find_similar_approaches\<close>\<close>

definition to_result :: "scored \<Rightarrow> ranked_result" where
  "to_result item =
     \<lparr>result_question_id = question_id (approach_data item),
      result_approach_node = approach_node (approach_data item),
      result_code_node = code_node (approach_data item),
      similarity_score = similarity item\<rparr>"

definition find_similar_approaches ::
  "(string list \<Rightarrow> error + question_bundle list) \<Rightarrow> (string \<Rightarrow> error + vector) \<Rightarrow> search_state \<Rightarrow>
   string \<Rightarrow> string \<Rightarrow> string list \<Rightarrow> int \<Rightarrow> (error + ranked_result list) \<times> search_state" where
  "find_similar_approaches fetch encode s query_text code_analysis subtopics k =
     (let s0 = s\<lparr>fetch_log := fetch_log s @ [subtopics]\<rparr> in
      case fetch subtopics of
        Inl e \<Rightarrow> (Inl e, s0)
      | Inr questions_data \<Rightarrow>
          if questions_data \<noteq> [] then
            (case create_weighted_embeddings encode s0 questions_data code_analysis of
               (Inl e, s1) \<Rightarrow> (Inl e, s1)
             | (Inr u, s1) \<Rightarrow>
                 (let s2 = s1\<lparr>encode_log := encode_log s1 @ [query_text]\<rparr> in
                  case encode query_text of
                    Inl e \<Rightarrow> (Inl e, s2)
                  | Inr query_embedding \<Rightarrow>
                      (case fetch_related_approaches s2 query_embedding k None of
                         Inl e \<Rightarrow> (Inl e, s2)
                       | Inr similar_approaches_data \<Rightarrow>
                           (Inr (map to_result similar_approaches_data), s2))))
          else (Inr [], s0\<lparr>stdout := stdout s0 @ [No_questions_found subtopics]\<rparr>))"

subsection \<open>Auxiliary definitions for the statements\<close>

text \<open>The test of line 234: the record passes the optional type filter.\<close>

definition in_filter :: "string set option \<Rightarrow> approach_record \<Rightarrow> bool" where
  "in_filter approach_types r = (approach_types = None \<or> approach_type r \<in> the approach_types)"

text \<open>
  The methods only ever append to the fields of the state (the builder after its reset).
  \<open>extend s d\<close> is the state \<open>s\<close> with the entries of \<open>d\<close> appended field by field,
  and \<open>appends f\<close> says that running \<open>f\<close> from any state appends what it appends when run
  from the empty state, with the same result. \<open>then_do f g\<close> is \<open>f\<close> followed by \<open>g\<close>
  unless \<open>f\<close> raises: the shape of every loop step of the builder.
\<close>

definition empty_state :: search_state where
  "empty_state = \<lparr>approach_embeddings = [], encode_log = [], fetch_log = [], stdout = []\<rparr>"

definition extend :: "search_state \<Rightarrow> search_state \<Rightarrow> search_state" where
  "extend s d =
     \<lparr>approach_embeddings = approach_embeddings s @ approach_embeddings d,
      encode_log = encode_log s @ encode_log d,
      fetch_log = fetch_log s @ fetch_log d,
      stdout = stdout s @ stdout d\<rparr>"

definition appends :: "(search_state \<Rightarrow> (error + 'a) \<times> search_state) \<Rightarrow> bool" where
  "appends f = (\<forall>s. f s = (fst (f empty_state), extend s (snd (f empty_state))))"

definition then_do ::
  "(search_state \<Rightarrow> (error + 'a) \<times> search_state) \<Rightarrow>
   (search_state \<Rightarrow> (error + 'b) \<times> search_state) \<Rightarrow>
   search_state \<Rightarrow> (error + 'b) \<times> search_state" where
  "then_do f g s = (case f s of (Inl e, s') \<Rightarrow> (Inl e, s') | (Inr u, s') \<Rightarrow> g s')"

text \<open>
  The encoder calls of a run, against its outcome \<open>r\<close>: a call that fails is the
  outcome, with its error as it is, and every call but the last one succeeded, so a
  failed call is the last call made. \<open>traced encode f\<close> says so for the run of \<open>f\<close> from
  the empty state, and that the run neither queries the graph nor prints.
\<close>

definition calls_ok :: "(string \<Rightarrow> error + vector) \<Rightarrow> error + 'a \<Rightarrow> string list \<Rightarrow> bool" where
  "calls_ok encode r new =
     ((\<forall>t \<in> set new. \<forall>e. encode t = Inl e \<longrightarrow> r = Inl e) \<and>
      (\<forall>t \<in> set (butlast new). \<exists>v. encode t = Inr v))"

definition traced ::
  "(string \<Rightarrow> error + vector) \<Rightarrow> (search_state \<Rightarrow> (error + 'a) \<times> search_state) \<Rightarrow> bool" where
  "traced encode f =
     (calls_ok encode (fst (f empty_state)) (encode_log (snd (f empty_state))) \<and>
      fetch_log (snd (f empty_state)) = [] \<and> stdout (snd (f empty_state)) = [])"

text \<open>
  For the records of a successful build: \<open>entry r\<close> is the category of a record with
  the pair of list entries it was built from, \<open>paired ty approaches codes\<close> lists the
  pairs of one category that \<open>zip\<close> yields and whose approach is truthy, and
  \<open>embedded_from encode r\<close> says that the embedding of \<open>r\<close> is what the encoder returns
  on the text of its approach and code.
\<close>

definition entry :: "approach_record \<Rightarrow> string \<times> node option \<times> node option" where
  "entry r = (approach_type r, Some (approach_node r), code_node r)"

definition paired :: "string \<Rightarrow> node option list \<Rightarrow> node option list \<Rightarrow>
    (string \<times> node option \<times> node option) list" where
  "paired ty approaches codes =
     map (Pair ty) (filter (\<lambda>p. truthy (fst p)) (zip approaches codes))"

definition embedded_from :: "(string \<Rightarrow> error + vector) \<Rightarrow> approach_record \<Rightarrow> bool" where
  "embedded_from encode r =
     (case approach_text (approach_node r) (code_node r) of
        Inl e \<Rightarrow> False
      | Inr t \<Rightarrow> encode t = Inr (embedding r))"

subsection \<open>Example inputs\<close>

definition rec_a :: approach_record where
  "rec_a = \<lparr>question_id = ''Q1'', approach_type = ''approached'', embedding = [1, 0],
     approach_node = [(''description'', ''use two pointers'')], code_node = None\<rparr>"

definition rec_b :: approach_record where
  "rec_b = \<lparr>question_id = ''Q1'', approach_type = ''optimized'', embedding = [0, 1],
     approach_node = [(''description'', ''use prefix sums'')],
     code_node = Some [(''content'', ''sum=...'')]\<rparr>"

definition rec_c :: approach_record where
  "rec_c = \<lparr>question_id = ''Q2'', approach_type = ''improved'', embedding = [1, 0],
     approach_node = [(''description'', ''sort first'')], code_node = None\<rparr>"

definition state_ex :: search_state where
  "state_ex = \<lparr>approach_embeddings = [rec_a, rec_b, rec_c], encode_log = [],
     fetch_log = [], stdout = []\<rparr>"

definition ranked_ex :: "scored list" where
  "ranked_ex = [\<lparr>approach_data = rec_b, similarity = 2\<rparr>,
                \<lparr>approach_data = rec_a, similarity = 1\<rparr>,
                \<lparr>approach_data = rec_c, similarity = 1\<rparr>]"

text \<open>
  An encoder that never fails, and two bundles. \<open>bundle_ex\<close> is the spec's scenario A as
  the Cypher query returns it: \<open>collect\<close> drops nulls, so the approach without code
  has no entry in \<open>approachedCodes\<close>. \<open>bundle_blank\<close> has one approach with an empty
  description and a code.
\<close>

definition encode_ex :: "string \<Rightarrow> error + vector" where
  "encode_ex t = Inr [real (length t), 1]"

definition bundle_ex :: question_bundle where
  "bundle_ex =
     \<lparr>q_node = [(''text'', ''Q1'')], testCases = [],
      optimizedApproaches = [Some [(''description'', ''use prefix sums'')]],
      approachedApproaches = [Some [(''description'', ''use two pointers'')]],
      constraints = [], improvedApproaches = [],
      optimizedCodes = [Some [(''content'', ''sum=...'')]],
      approachedCodes = [], improvedCodes = []\<rparr>"


text \<open>
  A graph query that finds \<open>bundle_ex\<close> under \<open>Array\<close>, fails for \<open>Down\<close> and finds
  nothing elsewhere; an encoder that fails on one text; and the state the builder
  reaches on \<open>bundle_ex\<close> from the empty state.
\<close>

definition fetch_ex :: "string list \<Rightarrow> error + question_bundle list" where
  "fetch_ex subtopics =
     (if subtopics = [''Array''] then Inr [bundle_ex]
      else if subtopics = [''Down''] then Inl (StoreUnavailable ''connection refused'')
      else Inr [])"

definition encode_flaky :: "string \<Rightarrow> error + vector" where
  "encode_flaky t =
     (if t = ''bad query'' then Inl (EmbeddingFailure ''timeout'') else encode_ex t)"

definition built_ex :: search_state where
  "built_ex =
     \<lparr>approach_embeddings =
        [\<lparr>question_id = ''Q1'', approach_type = ''optimized'', embedding = [23, 1],
          approach_node = [(''description'', ''use prefix sums'')],
          code_node = Some [(''content'', ''sum=...'')]\<rparr>],
      encode_log = [''use prefix sums sum=...''], fetch_log = [], stdout = []\<rparr>"

section \<open>The ranker\<close>

subsection \<open>The scoring loop, the sort and the slice\<close>

lemma score_records_data:
  "score_records q types rs = Inr xs \<Longrightarrow> map approach_data xs = filter (in_filter types) rs"
  by (induction rs arbitrary: xs) (auto simp: in_filter_def split: if_splits sum.splits)


lemma score_records_total:
  "\<forall>r \<in> set rs. in_filter types r \<longrightarrow> length (embedding r) = length q \<Longrightarrow>
   \<exists>xs. score_records q types rs = Inr xs"
proof (induction rs)
  case Nil
  show ?case by simp
next
  case (Cons r rs)
  then obtain xs where xs: "score_records q types rs = Inr xs"
    by auto
  show ?case
  proof (cases "in_filter types r")
    case True
    with Cons.prems have "length (embedding r) = length q"
      by simp
    with True xs show ?thesis
      by (simp add: in_filter_def np_dot_def)
  next
    case False
    with xs show ?thesis
      by (cases types) (simp_all add: in_filter_def)
  qed
qed

lemma slice_to_take: "\<exists>n. slice_to xs k = take n xs"
  by (auto simp: slice_to_def)



lemma length_sort_reverse: "length (sort_reverse key xs) = length xs"
  by (simp add: sort_reverse_def)

lemma set_sort_reverse: "set (sort_reverse key xs) = set xs"
  by (simp add: sort_reverse_def)

lemma mset_sort_reverse: "mset (sort_reverse key xs) = mset xs"
  by (simp add: sort_reverse_def)

lemma slice_to_length:
  "0 \<le> k \<Longrightarrow> length (slice_to xs k) = min (nat k) (length xs)"
  by (simp add: slice_to_def)

lemma slice_to_negative:
  assumes "k < 0"
  shows "slice_to xs k = take (length xs - nat (- k)) xs"
proof -
  have "nat (int (length xs) + k) = length xs - nat (- k)"
    using assms by linarith
  with assms show ?thesis
    by (simp add: slice_to_def)
qed

lemma slice_to_rev: "k < 0 \<Longrightarrow> slice_to xs k = rev (drop (nat (- k)) (rev xs))"
  by (simp add: slice_to_negative rev_drop)

lemma score_records_length:
  "score_records q types rs = Inr xs \<Longrightarrow> length xs = length (filter (in_filter types) rs)"
  using score_records_data [of q types rs xs] by (metis length_map)

lemma fetch_related_approaches_Inr:
  assumes "fetch_related_approaches s q top_k types = Inr res"
  shows "\<exists>xs. score_records q types (approach_embeddings s) = Inr xs \<and>
           res = slice_to (sort_reverse similarity xs) top_k"
proof (cases "approach_embeddings s = []")
  case True
  with assms have "res = []"
    by (simp add: fetch_related_approaches_def)
  with True show ?thesis
    by (simp add: slice_to_def sort_reverse_def)
next
  case False
  with assms show ?thesis
    by (auto simp: fetch_related_approaches_def split: sum.splits)
qed

lemma rec_embeddings:
  "embedding rec_a = [1, 0]" "embedding rec_b = [0, 1]" "embedding rec_c = [1, 0]"
  by (simp_all add: rec_a_def rec_b_def rec_c_def)

lemma ex_scores:
  "score_records [1, 2] None [rec_a, rec_b, rec_c] =
     Inr [\<lparr>approach_data = rec_a, similarity = 1\<rparr>,
          \<lparr>approach_data = rec_b, similarity = 2\<rparr>,
          \<lparr>approach_data = rec_c, similarity = 1\<rparr>]"
  by (simp add: np_dot_def rec_embeddings)

lemma ex_sorted:
  "sort_reverse similarity
     [\<lparr>approach_data = rec_a, similarity = 1\<rparr>,
      \<lparr>approach_data = rec_b, similarity = 2\<rparr>,
      \<lparr>approach_data = rec_c, similarity = 1\<rparr>] =
     [\<lparr>approach_data = rec_b, similarity = 2\<rparr>,
      \<lparr>approach_data = rec_a, similarity = 1\<rparr>,
      \<lparr>approach_data = rec_c, similarity = 1\<rparr>]"
  by (simp add: sort_reverse_def)

lemma ex_records: "approach_embeddings state_ex = [rec_a, rec_b, rec_c]"
  by (simp add: state_ex_def)


subsection \<open>Order of the ranked list\<close>



subsection \<open>Length of the ranked list\<close>

lemma fetch_related_approaches_total:
  assumes "\<forall>r \<in> set (approach_embeddings s). in_filter types r \<longrightarrow> length (embedding r) = length q"
  shows "\<exists>xs. score_records q types (approach_embeddings s) = Inr xs \<and>
           fetch_related_approaches s q top_k types = Inr (slice_to (sort_reverse similarity xs) top_k)"
proof -
  from assms obtain xs where xs: "score_records q types (approach_embeddings s) = Inr xs"
    using score_records_total by blast
  show ?thesis
  proof (cases "approach_embeddings s = []")
    case True
    with xs have "xs = []" by simp
    with True xs show ?thesis
      by (simp add: fetch_related_approaches_def slice_to_def sort_reverse_def)
  next
    case False
    with xs show ?thesis
      by (simp add: fetch_related_approaches_def)
  qed
qed

text \<open>
  Claim C4. When no record is stored the ranker returns the empty list, whatever the
  other arguments. For \<open>top_k \<ge> 1\<close>, and embeddings of the query vector's length (the
  data model's invariant, without which \<open>numpy.dot\<close> raises), the ranker returns a
  list of exactly \<open>min(top_k, n)\<close> items, \<open>n\<close> being the number of records that pass
  the filter and are scored; when \<open>top_k \<ge> n\<close> the items returned are exactly the scored
  records, each once: nothing is padded and nothing is an error.
\<close>

theorem ranker_length:
  "(approach_embeddings s = [] \<longrightarrow> fetch_related_approaches s q top_k types = Inr []) \<and>
   (1 \<le> top_k \<and>
    (\<forall>r \<in> set (approach_embeddings s). in_filter types r \<longrightarrow> length (embedding r) = length q) \<longrightarrow>
    (\<exists>res. fetch_related_approaches s q top_k types = Inr res \<and>
       length res = min (nat top_k) (length (filter (in_filter types) (approach_embeddings s))) \<and>
       (length (filter (in_filter types) (approach_embeddings s)) \<le> nat top_k \<longrightarrow>
          mset (map approach_data res) = mset (filter (in_filter types) (approach_embeddings s)))))"
proof (intro conjI impI)
  assume "approach_embeddings s = []"
  then show "fetch_related_approaches s q top_k types = Inr []"
    by (simp add: fetch_related_approaches_def)
next
  assume a: "1 \<le> top_k \<and>
    (\<forall>r \<in> set (approach_embeddings s). in_filter types r \<longrightarrow> length (embedding r) = length q)"
  then obtain xs where xs: "score_records q types (approach_embeddings s) = Inr xs"
    and res: "fetch_related_approaches s q top_k types =
      Inr (slice_to (sort_reverse similarity xs) top_k)"
    using fetch_related_approaches_total [of s types q top_k] by blast
  let ?res = "slice_to (sort_reverse similarity xs) top_k"
  let ?n = "length (filter (in_filter types) (approach_embeddings s))"
  from a have k: "0 \<le> top_k" by simp
  have len: "length ?res = min (nat top_k) ?n"
    using k by (simp add: slice_to_length length_sort_reverse score_records_length [OF xs])
  have all: "mset (map approach_data ?res) = mset (filter (in_filter types) (approach_embeddings s))"
    if "?n \<le> nat top_k"
  proof -
    from that have "length (sort_reverse similarity xs) \<le> nat top_k"
      by (simp add: length_sort_reverse score_records_length [OF xs])
    with k have "?res = sort_reverse similarity xs"
      by (simp add: slice_to_def)
    then have "mset (map approach_data ?res) = mset (map approach_data xs)"
      by (simp add: mset_sort_reverse)
    then show ?thesis
      by (simp add: score_records_data [OF xs])
  qed
  from res len all
  show "\<exists>res. fetch_related_approaches s q top_k types = Inr res \<and>
       length res = min (nat top_k) ?n \<and>
       (?n \<le> nat top_k \<longrightarrow>
          mset (map approach_data res) = mset (filter (in_filter types) (approach_embeddings s)))"
    by blast
qed


subsection \<open>The type filter\<close>

lemma slice_to_subset: "set (slice_to xs k) \<subseteq> set xs"
  using slice_to_take [of xs k] set_take_subset by metis

lemma slice_to_length_le: "length (slice_to xs k) \<le> length xs"
proof -
  obtain n where "slice_to xs k = take n xs"
    using slice_to_take by blast
  then show ?thesis
    by simp
qed

lemma in_filter_Some: "in_filter (Some F) r = (approach_type r \<in> F)"
  by (simp add: in_filter_def)

lemma in_filter_None: "in_filter None r"
  by (simp add: in_filter_def)

text \<open>
  Claim C5. With a type filter \<open>F\<close>, every item the ranker returns has an
  \<open>approach_type\<close> in \<open>F\<close>, and the ranker returns no more items than there are
  records whose \<open>approach_type\<close> is in \<open>F\<close>. With no filter every record is scored:
  the scoring loop yields one scored item per record, in order, and for
  \<open>top_k \<ge> 0\<close> the ranker returns \<open>min(top_k, number of records)\<close> items.
\<close>

theorem ranker_filter:
  "(fetch_related_approaches s q top_k (Some F) = Inr res \<longrightarrow>
      (\<forall>x \<in> set res. approach_type (approach_data x) \<in> F) \<and>
      length res \<le> length (filter (\<lambda>r. approach_type r \<in> F) (approach_embeddings s))) \<and>
   (score_records q None rs = Inr xs \<longrightarrow> map approach_data xs = rs) \<and>
   (fetch_related_approaches s q top_k None = Inr res' \<and> 0 \<le> top_k \<longrightarrow>
      length res' = min (nat top_k) (length (approach_embeddings s)))"
proof (intro conjI impI)
  assume r: "fetch_related_approaches s q top_k (Some F) = Inr res"
  then obtain ys where ys: "score_records q (Some F) (approach_embeddings s) = Inr ys"
    and res: "res = slice_to (sort_reverse similarity ys) top_k"
    using fetch_related_approaches_Inr by blast
  have data: "map approach_data ys = filter (\<lambda>r. approach_type r \<in> F) (approach_embeddings s)"
    using score_records_data [OF ys] by (simp add: in_filter_Some [abs_def])
  have sub: "set res \<subseteq> set ys"
    unfolding res using slice_to_subset [of "sort_reverse similarity ys" top_k]
    by (simp add: set_sort_reverse)
  show "\<forall>x \<in> set res. approach_type (approach_data x) \<in> F"
  proof
    fix x assume "x \<in> set res"
    with sub have "approach_data x \<in> set (map approach_data ys)"
      by auto
    then show "approach_type (approach_data x) \<in> F"
      unfolding data by simp
  qed
  have "length res \<le> length ys"
    unfolding res using slice_to_length_le [of "sort_reverse similarity ys" top_k]
    by (simp add: length_sort_reverse)
  also have "length ys = length (map approach_data ys)"
    by simp
  finally show "length res \<le> length (filter (\<lambda>r. approach_type r \<in> F) (approach_embeddings s))"
    unfolding data .
next
  assume "score_records q None rs = Inr xs"
  then show "map approach_data xs = rs"
    using score_records_data [of q None rs xs] by (simp add: in_filter_None)
next
  assume a: "fetch_related_approaches s q top_k None = Inr res' \<and> 0 \<le> top_k"
  then obtain ys where ys: "score_records q None (approach_embeddings s) = Inr ys"
    and res: "res' = slice_to (sort_reverse similarity ys) top_k"
    using fetch_related_approaches_Inr by blast
  have "length ys = length (approach_embeddings s)"
    using score_records_length [OF ys] by (simp add: in_filter_None)
  with a show "length res' = min (nat top_k) (length (approach_embeddings s))"
    unfolding res by (simp add: slice_to_length length_sort_reverse)
qed

subsection \<open>A \<open>top_k\<close> outside the contract\<close>



subsection \<open>The three statements on the example state\<close>

lemma rec_types:
  "approach_type rec_a = ''approached''" "approach_type rec_b = ''optimized''"
  "approach_type rec_c = ''improved''"
  by (simp_all add: rec_a_def rec_b_def rec_c_def)

lemma ex_fetch_any:
  "fetch_related_approaches state_ex [1, 2] k None = Inr (slice_to ranked_ex k)"
  unfolding fetch_related_approaches_def ex_records ex_scores
  by (simp add: ex_sorted ranked_ex_def)

lemma ex_dims:
  "\<forall>r \<in> set (approach_embeddings state_ex). in_filter types r \<longrightarrow>
     length (embedding r) = length [1, 2::real]"
  by (simp add: ex_records rec_embeddings)

lemma ex_scores_optimized:
  "score_records [1, 2] (Some {''optimized''}) [rec_a, rec_b, rec_c] =
     Inr [\<lparr>approach_data = rec_b, similarity = 2\<rparr>]"
  by (simp add: np_dot_def rec_embeddings rec_types)

lemma ex_fetch_optimized:
  "fetch_related_approaches state_ex [1, 2] 3 (Some {''optimized''}) =
     Inr [\<lparr>approach_data = rec_b, similarity = 2\<rparr>]"
  unfolding fetch_related_approaches_def ex_records ex_scores_optimized
  by (simp add: sort_reverse_def slice_to_def)

theorem ranker_length_witness:
  "fetch_related_approaches state_ex [1, 2] 5 None = Inr ranked_ex \<and>
   length ranked_ex =
     min (nat 5) (length (filter (in_filter None) (approach_embeddings state_ex)))"
proof -
  have k: "(1::int) \<le> 5"
    by simp
  from ranker_length [of state_ex "[1, 2]" 5 None] k ex_dims [of None]
  obtain res where res: "fetch_related_approaches state_ex [1, 2] 5 None = Inr res"
    and len: "length res =
      min (nat 5) (length (filter (in_filter None) (approach_embeddings state_ex)))"
    by blast
  have "fetch_related_approaches state_ex [1, 2] 5 None = Inr ranked_ex"
    by (simp add: ex_fetch_any slice_to_def ranked_ex_def)
  with res len show ?thesis
    by simp
qed

theorem ranker_filter_witness:
  "fetch_related_approaches state_ex [1, 2] 3 (Some {''optimized''}) =
     Inr [\<lparr>approach_data = rec_b, similarity = 2\<rparr>] \<and>
   approach_type (approach_data \<lparr>approach_data = rec_b, similarity = 2\<rparr>) \<in> {''optimized''} \<and>
   length [\<lparr>approach_data = rec_b, similarity = 2\<rparr>] \<le>
     length (filter (\<lambda>r. approach_type r \<in> {''optimized''}) (approach_embeddings state_ex)) \<and>
   score_records [1, 2] None [rec_a, rec_b, rec_c] =
     Inr [\<lparr>approach_data = rec_a, similarity = 1\<rparr>,
          \<lparr>approach_data = rec_b, similarity = 2\<rparr>,
          \<lparr>approach_data = rec_c, similarity = 1\<rparr>] \<and>
   map approach_data [\<lparr>approach_data = rec_a, similarity = 1\<rparr>,
          \<lparr>approach_data = rec_b, similarity = 2\<rparr>,
          \<lparr>approach_data = rec_c, similarity = 1\<rparr>] = [rec_a, rec_b, rec_c]"
proof -
  note t = ranker_filter [of state_ex "[1, 2]" 3 "{''optimized''}"
      "[\<lparr>approach_data = rec_b, similarity = 2\<rparr>]" "[rec_a, rec_b, rec_c]"
      "[\<lparr>approach_data = rec_a, similarity = 1\<rparr>,
        \<lparr>approach_data = rec_b, similarity = 2\<rparr>,
        \<lparr>approach_data = rec_c, similarity = 1\<rparr>]"]
  from t ex_fetch_optimized have
    a: "\<forall>x \<in> set [\<lparr>approach_data = rec_b, similarity = 2\<rparr>].
          approach_type (approach_data x) \<in> {''optimized''}"
    and b: "length [\<lparr>approach_data = rec_b, similarity = 2\<rparr>] \<le>
      length (filter (\<lambda>r. approach_type r \<in> {''optimized''}) (approach_embeddings state_ex))"
    by blast+
  from t ex_scores have
    c: "map approach_data [\<lparr>approach_data = rec_a, similarity = 1\<rparr>,
          \<lparr>approach_data = rec_b, similarity = 2\<rparr>,
          \<lparr>approach_data = rec_c, similarity = 1\<rparr>] = [rec_a, rec_b, rec_c]"
    by blast
  from a have a': "approach_type (approach_data \<lparr>approach_data = rec_b, similarity = 2\<rparr>)
      \<in> {''optimized''}"
    by simp
  from ex_fetch_optimized a' b ex_scores c show ?thesis
    by (intro conjI)
qed


section \<open>The builder\<close>

subsection \<open>The builder only appends\<close>

lemma extend_empty [simp]: "extend s empty_state = s" "extend empty_state d = d"
  by (simp_all add: extend_def empty_state_def)

lemma extend_assoc: "extend (extend s a) b = extend s (extend a b)"
  by (simp add: extend_def)

lemma extend_fields [simp]:
  "approach_embeddings (extend s d) = approach_embeddings s @ approach_embeddings d"
  "encode_log (extend s d) = encode_log s @ encode_log d"
  "fetch_log (extend s d) = fetch_log s @ fetch_log d"
  "stdout (extend s d) = stdout s @ stdout d"
  by (simp_all add: extend_def)

lemma appendsD: "appends f \<Longrightarrow> f s = (fst (f empty_state), extend s (snd (f empty_state)))"
  unfolding appends_def by (rule spec)

lemma appends_return: "appends (\<lambda>s. (r, s))"
  by (simp add: appends_def)

lemma appends_then_do:
  assumes f: "appends f" and g: "appends g"
  shows "appends (then_do f g)"
  unfolding appends_def
proof
  fix s
  obtain r d where fd: "f empty_state = (r, d)"
    by (cases "f empty_state")
  then have fs: "f s = (r, extend s d)"
    using appendsD [OF f, of s] by simp
  show "then_do f g s = (fst (then_do f g empty_state), extend s (snd (then_do f g empty_state)))"
  proof (cases r)
    case (Inl e)
    with fd fs show ?thesis
      by (simp add: then_do_def)
  next
    case (Inr u)
    obtain r' d' where gd: "g empty_state = (r', d')"
      by (cases "g empty_state")
    have "g (extend s d) = (r', extend (extend s d) d')"
      using appendsD [OF g, of "extend s d"] gd by simp
    moreover have "g d = (r', extend d d')"
      using appendsD [OF g, of d] gd by simp
    ultimately show ?thesis
      using Inr fd fs by (simp add: then_do_def extend_assoc)
  qed
qed

lemma embed_pair_appends: "appends (embed_pair encode q_data ty p)"
  unfolding appends_def
  by (auto simp: embed_pair_def extend_def empty_state_def Let_def
      split: prod.splits option.splits sum.splits)

lemma embed_pairs_Cons:
  "embed_pairs encode q_data ty (p # ps) =
     then_do (embed_pair encode q_data ty p) (embed_pairs encode q_data ty ps)"
  by (rule ext) (simp add: then_do_def)

lemma embed_pairs_Nil: "embed_pairs encode q_data ty [] = (\<lambda>s. (Inr (), s))"
  by (rule ext) simp

lemma embed_pairs_appends: "appends (embed_pairs encode q_data ty ps)"
proof (induction ps)
  case Nil
  show ?case unfolding embed_pairs_Nil by (rule appends_return)
next
  case (Cons p ps)
  show ?case
    unfolding embed_pairs_Cons by (rule appends_then_do [OF embed_pair_appends Cons.IH])
qed

lemma embed_bundle_then_do:
  "embed_bundle encode q_data =
     then_do (embed_pairs encode q_data ''approached''
                (zip (approachedApproaches q_data) (approachedCodes q_data)))
       (then_do (embed_pairs encode q_data ''optimized''
                   (zip (optimizedApproaches q_data) (optimizedCodes q_data)))
          (embed_pairs encode q_data ''improved''
             (zip (improvedApproaches q_data) (improvedCodes q_data))))"
  by (rule ext) (simp add: embed_bundle_def then_do_def split: prod.splits sum.splits)

lemma embed_bundle_appends: "appends (embed_bundle encode q_data)"
  unfolding embed_bundle_then_do
  by (intro appends_then_do embed_pairs_appends)

lemma embed_bundles_Cons:
  "embed_bundles encode (q_data # rest) =
     then_do (embed_bundle encode q_data) (embed_bundles encode rest)"
  by (rule ext) (simp add: then_do_def)

lemma embed_bundles_Nil: "embed_bundles encode [] = (\<lambda>s. (Inr (), s))"
  by (rule ext) simp

lemma embed_bundles_appends: "appends (embed_bundles encode questions_data)"
proof (induction questions_data)
  case Nil
  show ?case unfolding embed_bundles_Nil by (rule appends_return)
next
  case (Cons q_data rest)
  show ?case
    unfolding embed_bundles_Cons by (rule appends_then_do [OF embed_bundle_appends Cons.IH])
qed

subsection \<open>The embedded text and the loop body\<close>


lemma join_components_two:
  "join_components [d, c] = (if d = [] then c else if c = [] then d else d @ '' '' @ c)"
  by (simp add: join_components_def)

lemma subscript_Some: "map_of d k = Some v \<Longrightarrow> subscript d k = Inr v"
  by (simp add: subscript_def)


lemma map_of_Some_nonempty: "map_of d k = Some v \<Longrightarrow> d \<noteq> []"
  by auto


lemma approach_text_code:
  "map_of a ''description'' = Some d \<Longrightarrow> map_of c ''content'' = Some content \<Longrightarrow>
   approach_text a (Some c) =
     Inr (if d = [] then content else if content = [] then d else d @ '' '' @ content)"
  by (frule map_of_Some_nonempty [of c])
     (simp add: approach_text_def subscript_Some join_components_two)


lemma embed_pair_falsy: "\<not> truthy approach \<Longrightarrow> embed_pair encode q_data ty (approach, code) s = (Inr (), s)"
  by (cases approach) (simp_all add: embed_pair_def)

lemma embed_pair_record:
  assumes "a \<noteq> []" and "approach_text a code = Inr t" and "encode t = Inr v"
    and "map_of (q_node q_data) ''text'' = Some qid"
  shows "embed_pair encode q_data ty (Some a, code) s =
     (Inr (), s\<lparr>encode_log := encode_log s @ [t],
                approach_embeddings := approach_embeddings s @
                  [\<lparr>question_id = qid, approach_type = ty, embedding = v,
                    approach_node = a, code_node = code\<rparr>]\<rparr>)"
  using assms by (simp add: embed_pair_def subscript_Some)



subsection \<open>A code node with empty content\<close>



lemma embed_pairs_single:
  "embed_pairs encode q_data ty [p] s = embed_pair encode q_data ty p s"
  by (cases "embed_pair encode q_data ty p s") (simp split: sum.splits)

lemma embed_bundles_single:
  "embed_bundles encode [q_data] s = embed_bundle encode q_data s"
  by (cases "embed_bundle encode q_data s") (simp split: sum.splits)

lemma ex_text_prefix_sums:
  "approach_text [(''description'', ''use prefix sums'')] (Some [(''content'', ''sum=...'')]) =
     Inr ''use prefix sums sum=...''"
  by (simp add: approach_text_code)

lemma ex_pair_prefix_sums:
  "embed_pair encode_ex bundle_ex ''optimized''
     (Some [(''description'', ''use prefix sums'')], Some [(''content'', ''sum=...'')]) s =
   (Inr (), s\<lparr>encode_log := encode_log s @ [''use prefix sums sum=...''],
              approach_embeddings := approach_embeddings s @
                [\<lparr>question_id = ''Q1'', approach_type = ''optimized'', embedding = [23, 1],
                  approach_node = [(''description'', ''use prefix sums'')],
                  code_node = Some [(''content'', ''sum=...'')]\<rparr>]\<rparr>)"
  by (rule embed_pair_record [OF _ ex_text_prefix_sums])
     (simp_all add: encode_ex_def bundle_ex_def)

subsection \<open>An approach with no entry in the code list\<close>

text \<open>
  Claim C1 asks for one record for every approach of a bundle whose description is not
  empty, embedded from the description alone when the approach has no code. Each inner
  loop runs over \<open>zip(approaches, codes)\<close>, which stops at the end of the shorter list.
  In \<open>bundle_ex\<close> the approach \<open>use two pointers\<close> is present, with a description, and
  has no code, so the code list of its category is empty: the builder returns normally,
  builds the one record of the other approach, and neither builds a record for
  \<open>use two pointers\<close> nor hands its description to the encoder.
\<close>

theorem unpaired_approach_dropped:
  "create_weighted_embeddings encode_ex empty_state [bundle_ex] [] =
     (Inr (),
      \<lparr>approach_embeddings =
         [\<lparr>question_id = ''Q1'', approach_type = ''optimized'', embedding = [23, 1],
           approach_node = [(''description'', ''use prefix sums'')],
           code_node = Some [(''content'', ''sum=...'')]\<rparr>],
       encode_log = [''use prefix sums sum=...''], fetch_log = [], stdout = []\<rparr>)"
proof -
  have a: "zip (approachedApproaches bundle_ex) (approachedCodes bundle_ex) = []"
    and o: "zip (optimizedApproaches bundle_ex) (optimizedCodes bundle_ex) =
      [(Some [(''description'', ''use prefix sums'')], Some [(''content'', ''sum=...'')])]"
    and i: "zip (improvedApproaches bundle_ex) (improvedCodes bundle_ex) = []"
    by (simp_all add: bundle_ex_def)
  show ?thesis
    unfolding create_weighted_embeddings_def embed_bundles_single embed_bundle_def a o i
      embed_pairs_single
    by (simp add: ex_pair_prefix_sums empty_state_def)
qed


subsection \<open>Approaches without a description\<close>













subsection \<open>The encoder calls of the builder\<close>

lemma calls_ok_Nil: "calls_ok encode r []"
  by (simp add: calls_ok_def)

lemma calls_ok_retype:
  "calls_ok encode (Inl e :: error + 'a) new \<Longrightarrow> calls_ok encode (Inl e :: error + 'b) new"
  by (simp add: calls_ok_def)

lemma calls_ok_Inr_all:
  assumes "calls_ok encode (Inr u) new" and "t \<in> set new"
  shows "\<exists>v. encode t = Inr v"
proof (cases "encode t")
  case (Inl e)
  with assms show ?thesis
    by (simp add: calls_ok_def)
next
  case (Inr v)
  then show ?thesis by blast
qed

lemma calls_ok_append:
  assumes 1: "calls_ok encode (Inr u) new1" and 2: "calls_ok encode r new2"
  shows "calls_ok encode r (new1 @ new2)"
proof -
  have ok1: "\<exists>v. encode t = Inr v" if "t \<in> set new1" for t
    using calls_ok_Inr_all [OF 1 that] .
  have a: "\<forall>t \<in> set (new1 @ new2). \<forall>e. encode t = Inl e \<longrightarrow> r = Inl e"
  proof (intro ballI allI impI)
    fix t e assume t: "t \<in> set (new1 @ new2)" and e: "encode t = Inl e"
    have "t \<notin> set new1"
    proof
      assume "t \<in> set new1"
      then obtain v where "encode t = Inr v"
        using ok1 by blast
      with e show False
        by simp
    qed
    with t have "t \<in> set new2"
      by simp
    with 2 e show "r = Inl e"
      by (simp add: calls_ok_def)
  qed
  have b: "\<forall>t \<in> set (butlast (new1 @ new2)). \<exists>v. encode t = Inr v"
  proof (cases "new2 = []")
    case True
    then show ?thesis
      using ok1 in_set_butlastD by fastforce
  next
    case False
    then have "butlast (new1 @ new2) = new1 @ butlast new2"
      by (simp add: butlast_append)
    with ok1 2 show ?thesis
      by (auto simp: calls_ok_def)
  qed
  from a b show ?thesis
    by (simp add: calls_ok_def)
qed

lemma traced_return: "traced encode (\<lambda>s. (r, s))"
  by (simp add: traced_def calls_ok_def empty_state_def)

lemma traced_then_do:
  assumes af: "appends f" and ag: "appends g" and tf: "traced encode f" and tg: "traced encode g"
  shows "traced encode (then_do f g)"
proof -
  obtain r d where fd: "f empty_state = (r, d)"
    by (cases "f empty_state")
  from tf fd have okf: "calls_ok encode r (encode_log d)"
    and qf: "fetch_log d = []" "stdout d = []"
    by (simp_all add: traced_def)
  show ?thesis
  proof (cases r)
    case (Inl e)
    with fd okf qf show ?thesis
      by (simp add: traced_def then_do_def calls_ok_def)
  next
    case (Inr u)
    obtain r' d' where gd: "g empty_state = (r', d')"
      by (cases "g empty_state")
    from tg gd have okg: "calls_ok encode r' (encode_log d')"
      and qg: "fetch_log d' = []" "stdout d' = []"
      by (simp_all add: traced_def)
    have "g d = (r', extend d d')"
      using appendsD [OF ag, of d] gd by simp
    with Inr fd have "then_do f g empty_state = (r', extend d d')"
      by (simp add: then_do_def)
    moreover have "calls_ok encode r' (encode_log d @ encode_log d')"
      using okf okg unfolding Inr by (rule calls_ok_append)
    ultimately show ?thesis
      using qf qg by (simp add: traced_def)
  qed
qed

lemma embed_pair_traced: "traced encode (embed_pair encode q_data ty p)"
  unfolding traced_def
  by (auto simp: embed_pair_def calls_ok_def empty_state_def Let_def
      split: prod.splits option.splits sum.splits)

lemma embed_pairs_traced: "traced encode (embed_pairs encode q_data ty ps)"
proof (induction ps)
  case Nil
  show ?case unfolding embed_pairs_Nil by (rule traced_return)
next
  case (Cons p ps)
  show ?case
    unfolding embed_pairs_Cons
    by (rule traced_then_do [OF embed_pair_appends embed_pairs_appends embed_pair_traced Cons.IH])
qed

lemma embed_bundle_traced: "traced encode (embed_bundle encode q_data)"
  unfolding embed_bundle_then_do
  by (intro traced_then_do appends_then_do embed_pairs_appends embed_pairs_traced)

lemma embed_bundles_traced: "traced encode (embed_bundles encode questions_data)"
proof (induction questions_data)
  case Nil
  show ?case unfolding embed_bundles_Nil by (rule traced_return)
next
  case (Cons q_data rest)
  show ?case
    unfolding embed_bundles_Cons
    by (rule traced_then_do
        [OF embed_bundle_appends embed_bundles_appends embed_bundle_traced Cons.IH])
qed

section \<open>The facade\<close>

subsection \<open>The runs of a search\<close>

lemma create_weighted_embeddings_run:
  assumes "embed_bundles encode questions_data empty_state = (r, d)"
  shows "create_weighted_embeddings encode s questions_data code_analysis =
     (r, s\<lparr>approach_embeddings := approach_embeddings d,
            encode_log := encode_log s @ encode_log d\<rparr>)"
proof -
  have q: "fetch_log d = []" "stdout d = []"
    using embed_bundles_traced [of encode questions_data] assms
    by (simp_all add: traced_def)
  have "embed_bundles encode questions_data (s\<lparr>approach_embeddings := []\<rparr>) =
      (r, extend (s\<lparr>approach_embeddings := []\<rparr>) d)"
    using appendsD [OF embed_bundles_appends, of encode questions_data
        "s\<lparr>approach_embeddings := []\<rparr>"] assms
    by simp
  moreover have "extend (s\<lparr>approach_embeddings := []\<rparr>) d =
      s\<lparr>approach_embeddings := approach_embeddings d,
        encode_log := encode_log s @ encode_log d\<rparr>"
    using q by (simp add: extend_def)
  ultimately show ?thesis
    by (simp add: create_weighted_embeddings_def)
qed

lemma fetch_related_approaches_cong:
  "approach_embeddings s = approach_embeddings s' \<Longrightarrow>
   fetch_related_approaches s q k types = fetch_related_approaches s' q k types"
  by (simp add: fetch_related_approaches_def)

lemma find_similar_approaches_fetch_error:
  "fetch subtopics = Inl e \<Longrightarrow>
   find_similar_approaches fetch encode s query_text code_analysis subtopics k =
     (Inl e, s\<lparr>fetch_log := fetch_log s @ [subtopics]\<rparr>)"
  by (simp add: find_similar_approaches_def)

lemma find_similar_approaches_no_bundles:
  "fetch subtopics = Inr [] \<Longrightarrow>
   find_similar_approaches fetch encode s query_text code_analysis subtopics k =
     (Inr [], s\<lparr>fetch_log := fetch_log s @ [subtopics],
                 stdout := stdout s @ [No_questions_found subtopics]\<rparr>)"
  by (simp add: find_similar_approaches_def)

lemma find_similar_approaches_build_error:
  assumes "fetch subtopics = Inr questions_data" and "questions_data \<noteq> []"
    and "embed_bundles encode questions_data empty_state = (Inl e, d)"
  shows "find_similar_approaches fetch encode s query_text code_analysis subtopics k =
     (Inl e, s\<lparr>fetch_log := fetch_log s @ [subtopics],
               approach_embeddings := approach_embeddings d,
               encode_log := encode_log s @ encode_log d\<rparr>)"
  using assms(1,2)
  by (simp add: find_similar_approaches_def create_weighted_embeddings_run [OF assms(3)])

lemma find_similar_approaches_query_error:
  assumes "fetch subtopics = Inr questions_data" and "questions_data \<noteq> []"
    and "embed_bundles encode questions_data empty_state = (Inr u, d)"
    and "encode query_text = Inl e"
  shows "find_similar_approaches fetch encode s query_text code_analysis subtopics k =
     (Inl e, s\<lparr>fetch_log := fetch_log s @ [subtopics],
               approach_embeddings := approach_embeddings d,
               encode_log := encode_log s @ encode_log d @ [query_text]\<rparr>)"
  using assms(1,2,4)
  by (simp add: find_similar_approaches_def create_weighted_embeddings_run [OF assms(3)])

lemma find_similar_approaches_ranked:
  assumes "fetch subtopics = Inr questions_data" and "questions_data \<noteq> []"
    and "embed_bundles encode questions_data empty_state = (Inr u, d)"
    and "encode query_text = Inr query_embedding"
  shows "find_similar_approaches fetch encode s query_text code_analysis subtopics k =
     (case fetch_related_approaches d query_embedding k None of
        Inl e \<Rightarrow> Inl e
      | Inr similar_approaches_data \<Rightarrow> Inr (map to_result similar_approaches_data),
      s\<lparr>fetch_log := fetch_log s @ [subtopics],
        approach_embeddings := approach_embeddings d,
        encode_log := encode_log s @ encode_log d @ [query_text]\<rparr>)"
proof -
  let ?s2 = "s\<lparr>fetch_log := fetch_log s @ [subtopics],
        approach_embeddings := approach_embeddings d,
        encode_log := encode_log s @ encode_log d @ [query_text]\<rparr>"
  have "fetch_related_approaches ?s2 query_embedding k None =
      fetch_related_approaches d query_embedding k None"
    by (rule fetch_related_approaches_cong) simp
  then show ?thesis
    using assms(1,2,4)
    by (simp add: find_similar_approaches_def create_weighted_embeddings_run [OF assms(3)]
        split: sum.splits)
qed




subsection \<open>The example runs\<close>

lemma bundle_ex_built:
  assumes "encode ''use prefix sums sum=...'' = Inr [23, 1]"
  shows "embed_bundles encode [bundle_ex] empty_state = (Inr (), built_ex)"
proof -
  have a: "zip (approachedApproaches bundle_ex) (approachedCodes bundle_ex) = []"
    and o: "zip (optimizedApproaches bundle_ex) (optimizedCodes bundle_ex) =
      [(Some [(''description'', ''use prefix sums'')], Some [(''content'', ''sum=...'')])]"
    and i: "zip (improvedApproaches bundle_ex) (improvedCodes bundle_ex) = []"
    by (simp_all add: bundle_ex_def)
  have q: "map_of (q_node bundle_ex) ''text'' = Some ''Q1''"
    by (simp add: bundle_ex_def)
  have ne: "[(''description'', ''use prefix sums'')] \<noteq> []"
    by simp
  note pair = embed_pair_record [where encode = encode and q_data = bundle_ex,
      OF ne ex_text_prefix_sums assms q]
  show ?thesis
    unfolding embed_bundles_single embed_bundle_def a o i embed_pairs_single
    by (simp add: pair empty_state_def built_ex_def)
qed


lemma encode_flaky_prefix_sums: "encode_flaky ''use prefix sums sum=...'' = Inr [23, 1]"
  by (simp add: encode_flaky_def encode_ex_def)

lemma fetch_ex_values:
  "fetch_ex [''Array''] = Inr [bundle_ex]"
  "fetch_ex [''Down''] = Inl (StoreUnavailable ''connection refused'')"
  "fetch_ex [''NonexistentTag''] = Inr []"
  by (simp_all add: fetch_ex_def)

subsection \<open>No bundle, no encoding\<close>

text \<open>
  Claim C6. When the graph query returns no bundle, the facade returns the empty list at
  once: the state changes only by the query recorded in the fetch log and by the line
  printed, and no text is handed to the encoder, neither a candidate text nor the query
  text: the log of encoder calls is what it was, whatever the encoder.
\<close>

theorem no_bundles_no_encoding:
  assumes "fetch subtopics = Inr []"
  shows "find_similar_approaches fetch encode s query_text code_analysis subtopics k =
           (Inr [], s\<lparr>fetch_log := fetch_log s @ [subtopics],
                       stdout := stdout s @ [No_questions_found subtopics]\<rparr>) \<and>
         encode_log
           (snd (find_similar_approaches fetch encode s query_text code_analysis subtopics k)) =
           encode_log s"
  using assms by (simp add: find_similar_approaches_no_bundles)

theorem no_bundles_no_encoding_witness:
  "fetch_ex [''NonexistentTag''] = Inr [] \<and>
   find_similar_approaches fetch_ex encode_flaky empty_state ''bad query'' []
       [''NonexistentTag''] 5 =
     (Inr [], empty_state\<lparr>fetch_log := fetch_log empty_state @ [[''NonexistentTag'']],
        stdout := stdout empty_state @ [No_questions_found [''NonexistentTag'']]\<rparr>) \<and>
   encode_log (snd (find_similar_approaches fetch_ex encode_flaky empty_state ''bad query'' []
       [''NonexistentTag''] 5)) = encode_log empty_state"
proof -
  have h: "fetch_ex [''NonexistentTag''] = Inr []"
    by (rule fetch_ex_values)
  from h no_bundles_no_encoding [where fetch = fetch_ex and subtopics = "[''NonexistentTag'']"
      and encode = encode_flaky and s = empty_state and query_text = "''bad query''"
      and code_analysis = "[]" and k = 5]
  show ?thesis
    by blast
qed

subsection \<open>Failures reach the caller\<close>

text \<open>
  Claim C8. A failure of the graph query is the outcome of the search, with its error as
  it is and nothing but the query recorded in the state. Every search queries the graph
  exactly once. The texts handed to the encoder during a search are appended to the log
  of calls; a call that fails is the outcome of the search, with its error as it is, and
  every call before the last one succeeded: after a failed call nothing more is called,
  so no failure is retried, skipped over or turned into a partial result. A line is
  printed exactly when the graph query returned no bundle, where the search returns the
  empty list.
\<close>

theorem failures_propagate:
  "(\<forall>e. fetch subtopics = Inl e \<longrightarrow>
      find_similar_approaches fetch encode s query_text code_analysis subtopics k =
        (Inl e, s\<lparr>fetch_log := fetch_log s @ [subtopics]\<rparr>)) \<and>
   fetch_log (snd (find_similar_approaches fetch encode s query_text code_analysis subtopics k)) =
     fetch_log s @ [subtopics] \<and>
   (\<exists>new.
      encode_log
        (snd (find_similar_approaches fetch encode s query_text code_analysis subtopics k)) =
        encode_log s @ new \<and>
      (\<forall>t \<in> set new. \<forall>e. encode t = Inl e \<longrightarrow>
         fst (find_similar_approaches fetch encode s query_text code_analysis subtopics k) =
           Inl e) \<and>
      (\<forall>t \<in> set (butlast new). \<exists>v. encode t = Inr v)) \<and>
   stdout (snd (find_similar_approaches fetch encode s query_text code_analysis subtopics k)) =
     (if fetch subtopics = Inr [] then stdout s @ [No_questions_found subtopics] else stdout s)"
  (is "?fetch \<and> ?once \<and> (\<exists>new. ?log new \<and> ?calls new \<and> ?last new) \<and> ?printed")
proof -
  let ?R = "find_similar_approaches fetch encode s query_text code_analysis subtopics k"
  have main: "?once \<and> (\<exists>new. ?log new \<and> calls_ok encode (fst ?R) new) \<and> ?printed"
  proof (cases "fetch subtopics")
    case (Inl e)
    then have "?R = (Inl e, s\<lparr>fetch_log := fetch_log s @ [subtopics]\<rparr>)"
      by (rule find_similar_approaches_fetch_error)
    moreover have "calls_ok encode (Inl e :: error + ranked_result list) []"
      by (rule calls_ok_Nil)
    ultimately show ?thesis
      using Inl by auto
  next
    case (Inr questions_data)
    show ?thesis
    proof (cases "questions_data = []")
      case True
      with Inr have "?R = (Inr [], s\<lparr>fetch_log := fetch_log s @ [subtopics],
          stdout := stdout s @ [No_questions_found subtopics]\<rparr>)"
        by (simp add: find_similar_approaches_no_bundles)
      moreover have "calls_ok encode (Inr [] :: error + ranked_result list) []"
        by (rule calls_ok_Nil)
      ultimately show ?thesis
        using Inr True by auto
    next
      case False
      obtain r d where b: "embed_bundles encode questions_data empty_state = (r, d)"
        by (cases "embed_bundles encode questions_data empty_state")
      have okb: "calls_ok encode r (encode_log d)"
        using embed_bundles_traced [of encode questions_data] b by (simp add: traced_def)
      show ?thesis
      proof (cases r)
        case (Inl e)
        with Inr False b have "?R = (Inl e, s\<lparr>fetch_log := fetch_log s @ [subtopics],
            approach_embeddings := approach_embeddings d,
            encode_log := encode_log s @ encode_log d\<rparr>)"
          by (simp add: find_similar_approaches_build_error)
        moreover have "calls_ok encode (Inl e :: error + ranked_result list) (encode_log d)"
          using okb unfolding Inl by (rule calls_ok_retype)
        ultimately show ?thesis
          using Inr False by auto
      next
        case u: (Inr u)
        show ?thesis
        proof (cases "encode query_text")
          case (Inl e)
          with Inr False b u have "?R = (Inl e, s\<lparr>fetch_log := fetch_log s @ [subtopics],
              approach_embeddings := approach_embeddings d,
              encode_log := encode_log s @ encode_log d @ [query_text]\<rparr>)"
            by (simp add: find_similar_approaches_query_error)
          moreover have "calls_ok encode (Inl e :: error + ranked_result list) [query_text]"
            using Inl by (simp add: calls_ok_def)
          then have "calls_ok encode (Inl e :: error + ranked_result list)
              (encode_log d @ [query_text])"
            using okb unfolding u by (rule calls_ok_append [rotated])
          ultimately show ?thesis
            using Inr False by auto
        next
          case q: (Inr query_embedding)
          let ?r = "case fetch_related_approaches d query_embedding k None of
              Inl e \<Rightarrow> Inl e
            | Inr similar_approaches_data \<Rightarrow> Inr (map to_result similar_approaches_data)"
          from Inr False b u q have "?R = (?r, s\<lparr>fetch_log := fetch_log s @ [subtopics],
              approach_embeddings := approach_embeddings d,
              encode_log := encode_log s @ encode_log d @ [query_text]\<rparr>)"
            by (simp add: find_similar_approaches_ranked)
          moreover have "calls_ok encode ?r [query_text]"
            using q by (simp add: calls_ok_def)
          then have "calls_ok encode ?r (encode_log d @ [query_text])"
            using okb unfolding u by (rule calls_ok_append [rotated])
          ultimately show ?thesis
            using Inr False by auto
        qed
      qed
    qed
  qed
  have f: ?fetch
    using find_similar_approaches_fetch_error [of fetch subtopics] by blast
  from main obtain new where "?log new" and "calls_ok encode (fst ?R) new"
    by blast
  then have "?log new \<and> ?calls new \<and> ?last new"
    by (simp add: calls_ok_def)
  with f main show ?thesis
    by blast
qed


lemma ex_search_bad_query:
  "find_similar_approaches fetch_ex encode_flaky empty_state ''bad query'' [] [''Array''] 5 =
     (Inl (EmbeddingFailure ''timeout''),
      empty_state\<lparr>fetch_log := fetch_log empty_state @ [[''Array'']],
        approach_embeddings := approach_embeddings built_ex,
        encode_log := encode_log empty_state @ encode_log built_ex @ [''bad query'']\<rparr>)"
proof -
  have f: "fetch_ex [''Array''] = Inr [bundle_ex]"
    by (rule fetch_ex_values)
  have ne: "[bundle_ex] \<noteq> []"
    by simp
  have b: "embed_bundles encode_flaky [bundle_ex] empty_state = (Inr (), built_ex)"
    using encode_flaky_prefix_sums by (rule bundle_ex_built)
  have q: "encode_flaky ''bad query'' = Inl (EmbeddingFailure ''timeout'')"
    by (simp add: encode_flaky_def)
  from f ne b q show ?thesis
    by (rule find_similar_approaches_query_error)
qed

theorem failures_propagate_witness:
  "fetch_ex [''Down''] = Inl (StoreUnavailable ''connection refused'') \<and>
   find_similar_approaches fetch_ex encode_ex empty_state ''q'' [] [''Down''] 5 =
     (Inl (StoreUnavailable ''connection refused''),
      empty_state\<lparr>fetch_log := fetch_log empty_state @ [[''Down'']]\<rparr>) \<and>
   encode_flaky ''bad query'' = Inl (EmbeddingFailure ''timeout'') \<and>
   encode_log (snd (find_similar_approaches fetch_ex encode_flaky empty_state ''bad query'' []
       [''Array''] 5)) = encode_log empty_state @ [''use prefix sums sum=...'', ''bad query''] \<and>
   fst (find_similar_approaches fetch_ex encode_flaky empty_state ''bad query'' []
       [''Array''] 5) = Inl (EmbeddingFailure ''timeout'')"
proof -
  have down: "fetch_ex [''Down''] = Inl (StoreUnavailable ''connection refused'')"
    by (rule fetch_ex_values)
  note inst1 = failures_propagate [where fetch = fetch_ex and subtopics = "[''Down'']"
      and encode = encode_ex and s = empty_state and query_text = "''q''"
      and code_analysis = "[]" and k = 5]
  from inst1 down have c1:
    "find_similar_approaches fetch_ex encode_ex empty_state ''q'' [] [''Down''] 5 =
       (Inl (StoreUnavailable ''connection refused''),
        empty_state\<lparr>fetch_log := fetch_log empty_state @ [[''Down'']]\<rparr>)"
    by blast
  have bad: "encode_flaky ''bad query'' = Inl (EmbeddingFailure ''timeout'')"
    by (simp add: encode_flaky_def)
  let ?R = "find_similar_approaches fetch_ex encode_flaky empty_state ''bad query'' []
      [''Array''] 5"
  have log: "encode_log (snd ?R) =
      encode_log empty_state @ [''use prefix sums sum=...'', ''bad query'']"
    by (simp add: ex_search_bad_query built_ex_def)
  note inst2 = failures_propagate [where fetch = fetch_ex and subtopics = "[''Array'']"
      and encode = encode_flaky and s = empty_state and query_text = "''bad query''"
      and code_analysis = "[]" and k = 5]
  from inst2 obtain new where new: "encode_log (snd ?R) = encode_log empty_state @ new"
    and calls: "\<forall>t \<in> set new. \<forall>e. encode_flaky t = Inl e \<longrightarrow> fst ?R = Inl e"
    by blast
  from new log have "new = [''use prefix sums sum=...'', ''bad query'']"
    by simp
  then have "''bad query'' \<in> set new"
    by simp
  with calls bad have c2: "fst ?R = Inl (EmbeddingFailure ''timeout'')"
    by blast
  from down c1 bad log c2 show ?thesis
    by (intro conjI)
qed

subsection \<open>The stored records\<close>





section \<open>The records of a successful build\<close>

lemma embed_pair_built:
  assumes "embed_pair encode q_data ty p empty_state = (Inr u, d)"
  shows "map entry (approach_embeddings d) = map (Pair ty) (filter (\<lambda>p. truthy (fst p)) [p]) \<and>
         list_all (embedded_from encode) (approach_embeddings d)"
proof -
  obtain approach code where p: "p = (approach, code)"
    by (cases p)
  show ?thesis
  proof (cases "truthy approach")
    case False
    with assms p have "d = empty_state"
      by (simp add: embed_pair_falsy)
    with False p show ?thesis
      by (simp add: empty_state_def)
  next
    case True
    then obtain a where a: "approach = Some a" "a \<noteq> []"
      by (cases approach) simp_all
    from assms p a obtain t v qid where t: "approach_text a code = Inr t"
      and v: "encode t = Inr v"
      and d: "d = empty_state\<lparr>encode_log := encode_log empty_state @ [t],
          approach_embeddings := approach_embeddings empty_state @
            [\<lparr>question_id = qid, approach_type = ty, embedding = v,
              approach_node = a, code_node = code\<rparr>]\<rparr>"
      by (auto simp: embed_pair_def Let_def split: sum.splits)
    from d t v p a show ?thesis
      by (simp add: empty_state_def entry_def embedded_from_def)
  qed
qed

lemma then_do_Inr:
  assumes "appends g" and "then_do f g empty_state = (Inr u, d)"
  obtains u1 d1 d2 where "f empty_state = (Inr u1, d1)" and "g empty_state = (Inr u, d2)"
    and "d = extend d1 d2"
proof -
  obtain r1 d1 where f: "f empty_state = (r1, d1)"
    by (cases "f empty_state")
  obtain r2 d2 where g: "g empty_state = (r2, d2)"
    by (cases "g empty_state")
  have gd: "g d1 = (r2, extend d1 d2)"
    using appendsD [OF assms(1), of d1] g by simp
  from assms(2) f obtain u1 where r1: "r1 = Inr u1"
    by (cases r1) (simp_all add: then_do_def)
  with assms(2) f gd have "r2 = Inr u" and "d = extend d1 d2"
    by (simp_all add: then_do_def)
  with f g r1 that show ?thesis
    by blast
qed

lemma embed_pairs_built:
  assumes "embed_pairs encode q_data ty ps empty_state = (Inr u, d)"
  shows "map entry (approach_embeddings d) = map (Pair ty) (filter (\<lambda>p. truthy (fst p)) ps) \<and>
         list_all (embedded_from encode) (approach_embeddings d)"
  using assms
proof (induction ps arbitrary: u d)
  case Nil
  then have "d = empty_state"
    by simp
  then show ?case
    by (simp add: empty_state_def)
next
  case (Cons p ps)
  from Cons.prems obtain u1 d1 d2
    where 1: "embed_pair encode q_data ty p empty_state = (Inr u1, d1)"
      and 2: "embed_pairs encode q_data ty ps empty_state = (Inr u, d2)"
      and d: "d = extend d1 d2"
    unfolding embed_pairs_Cons by (rule then_do_Inr [OF embed_pairs_appends])
  from embed_pair_built [OF 1] Cons.IH [OF 2] d show ?case
    by simp
qed

lemma embed_bundle_built:
  assumes "embed_bundle encode q_data empty_state = (Inr u, d)"
  shows "map entry (approach_embeddings d) =
           paired ''approached'' (approachedApproaches q_data) (approachedCodes q_data) @
           paired ''optimized'' (optimizedApproaches q_data) (optimizedCodes q_data) @
           paired ''improved'' (improvedApproaches q_data) (improvedCodes q_data) \<and>
         list_all (embedded_from encode) (approach_embeddings d)"
proof -
  from assms obtain u1 d1 d23
    where 1: "embed_pairs encode q_data ''approached''
        (zip (approachedApproaches q_data) (approachedCodes q_data)) empty_state = (Inr u1, d1)"
      and 23: "then_do (embed_pairs encode q_data ''optimized''
                   (zip (optimizedApproaches q_data) (optimizedCodes q_data)))
          (embed_pairs encode q_data ''improved''
             (zip (improvedApproaches q_data) (improvedCodes q_data))) empty_state = (Inr u, d23)"
      and d: "d = extend d1 d23"
    unfolding embed_bundle_then_do
    by (rule then_do_Inr [OF appends_then_do [OF embed_pairs_appends embed_pairs_appends]])
  from 23 obtain u2 d2 d3
    where 2: "embed_pairs encode q_data ''optimized''
        (zip (optimizedApproaches q_data) (optimizedCodes q_data)) empty_state = (Inr u2, d2)"
      and 3: "embed_pairs encode q_data ''improved''
        (zip (improvedApproaches q_data) (improvedCodes q_data)) empty_state = (Inr u, d3)"
      and d23: "d23 = extend d2 d3"
    by (rule then_do_Inr [OF embed_pairs_appends])
  from embed_pairs_built [OF 1] embed_pairs_built [OF 2] embed_pairs_built [OF 3] d d23
  show ?thesis
    by (simp add: paired_def)
qed

lemma embed_bundles_built:
  assumes "embed_bundles encode questions_data empty_state = (Inr u, d)"
  shows "map entry (approach_embeddings d) =
           concat (map (\<lambda>q_data.
             paired ''approached'' (approachedApproaches q_data) (approachedCodes q_data) @
             paired ''optimized'' (optimizedApproaches q_data) (optimizedCodes q_data) @
             paired ''improved'' (improvedApproaches q_data) (improvedCodes q_data))
             questions_data) \<and>
         list_all (embedded_from encode) (approach_embeddings d)"
  using assms
proof (induction questions_data arbitrary: u d)
  case Nil
  then have "d = empty_state"
    by simp
  then show ?case
    by (simp add: empty_state_def)
next
  case (Cons q_data rest)
  from Cons.prems obtain u1 d1 d2
    where 1: "embed_bundle encode q_data empty_state = (Inr u1, d1)"
      and 2: "embed_bundles encode rest empty_state = (Inr u, d2)"
      and d: "d = extend d1 d2"
    unfolding embed_bundles_Cons by (rule then_do_Inr [OF embed_bundles_appends])
  from embed_bundle_built [OF 1] Cons.IH [OF 2] d show ?case
    by simp
qed

text \<open>
  When the builder returns normally, the stored records are, in order, one record for
  each truthy approach entry that \<open>zip\<close> pairs with an entry of the code list of its
  category: bundle after bundle, and within a bundle the categories \<open>approached\<close>,
  \<open>optimized\<close>, \<open>improved\<close>. Each record keeps the two entries and is embedded from
  their text. An approach beyond the end of the code list is in no pair.
\<close>

lemma create_weighted_embeddings_built:
  assumes "create_weighted_embeddings encode s questions_data code_analysis = (Inr u, s')"
  shows "map entry (approach_embeddings s') =
           concat (map (\<lambda>q_data.
             paired ''approached'' (approachedApproaches q_data) (approachedCodes q_data) @
             paired ''optimized'' (optimizedApproaches q_data) (optimizedCodes q_data) @
             paired ''improved'' (improvedApproaches q_data) (improvedCodes q_data))
             questions_data) \<and>
         list_all (embedded_from encode) (approach_embeddings s')"
proof -
  obtain r d where b: "embed_bundles encode questions_data empty_state = (r, d)"
    by (cases "embed_bundles encode questions_data empty_state")
  from assms create_weighted_embeddings_run [OF b, of s code_analysis]
  have "r = Inr u" and "approach_embeddings s' = approach_embeddings d"
    by auto
  with embed_bundles_built [of encode questions_data u d] b show ?thesis
    by simp
qed

end
